theory Spec2Isabelle
  imports Main
begin

section \<open>Strings of the host library\<close>

text \<open>
  A \<open>QString\<close> is modelled as a \<open>string\<close>, one \<open>char\<close> per code unit, restricted to
  the Latin-1 range.  The functions below are the ones the two plugins call on it.
\<close>

definition isSpace :: "char \<Rightarrow> bool" where
  \<comment> \<open>\<open>QChar::isSpace\<close> on the Latin-1 range: tab, line feed, vertical tab, form feed,
      carriage return, space, next line (0x85) and no-break space (0xA0).\<close>
  "isSpace c \<longleftrightarrow> c \<in> set [CHR 0x09, CHR 0x0A, CHR 0x0B, CHR 0x0C, CHR 0x0D, CHR 0x20,
                          CHR 0x85, CHR 0xA0]"

definition rightTrimmed :: "string \<Rightarrow> string" where
  \<comment> \<open>Modelled from the spec: \<open>IOutputParser::rightTrimmed\<close> belongs to the host's output
      parser base class and is not among the sources; the claims call its result the
      right-trimmed line: the line without its trailing white space.\<close>
  "rightTrimmed s = rev (dropWhile isSpace (rev s))"

definition trimmed :: "string \<Rightarrow> string" where
  \<comment> \<open>\<open>QString::trimmed\<close>: white space removed from both ends.\<close>
  "trimmed s = dropWhile isSpace (rightTrimmed s)"

definition startsWith :: "string \<Rightarrow> string \<Rightarrow> bool" where
  "startsWith s p \<longleftrightarrow> take (length p) s = p"

definition endsWith :: "string \<Rightarrow> string \<Rightarrow> bool" where
  "endsWith s p \<longleftrightarrow> length p \<le> length s \<and> drop (length s - length p) s = p"

definition left :: "string \<Rightarrow> int \<Rightarrow> string" where
  \<comment> \<open>\<open>QString::left(n)\<close>: the whole string when \<open>n\<close> is negative or too large.\<close>
  "left s n = (if n < 0 \<or> int (length s) \<le> n then s else take (nat n) s)"

function remove :: "string \<Rightarrow> string \<Rightarrow> string" where
  \<comment> \<open>\<open>QString::remove(const QString &)\<close>: every occurrence of the pattern is cut out,
      the search resuming at the place of the cut.\<close>
  "remove s pat =
     (if pat = [] then s
      else if startsWith s pat then remove (drop (length pat) s) pat
      else (case s of [] \<Rightarrow> [] | c # cs \<Rightarrow> c # remove cs pat))"
  by pat_completeness auto
termination
proof (relation "measure (\<lambda>(s, pat). length s)")
  fix s pat :: string
  assume "pat \<noteq> []" and "startsWith s pat"
  then show "((drop (length pat) s, pat), (s, pat)) \<in> measure (\<lambda>(s, pat). length s)"
    by (cases s; cases pat) (auto simp: startsWith_def)
qed auto

definition isDigit :: "char \<Rightarrow> bool" where
  "isDigit c \<longleftrightarrow> c \<in> set ''0123456789''"

definition digitValue :: "char \<Rightarrow> int" where
  "digitValue c = int (of_char c) - 48"

definition toInt :: "string \<Rightarrow> int" where
  \<comment> \<open>\<open>QString::toInt\<close> on what the parser hands it, a run of decimal digits or the
      empty string: the value when it fits a 32-bit \<open>int\<close>, and 0 when the conversion
      fails (empty string, other characters, value out of range).\<close>
  "toInt s =
     (if s = [] \<or> \<not> list_all isDigit s then 0
      else (let v = foldl (\<lambda>acc c. 10 * acc + digitValue c) 0 s
            in if v \<le> 2147483647 then v else 0))"

section \<open>Regular expressions of the host library\<close>

text \<open>
  \<open>QRegularExpression\<close> is a backtracking matcher.  The fragment the parser's three
  patterns use: anchors, literals, the classes \<open>.\<close>, \<open>\s\<close> and \<open>\d\<close>, greedy
  repetition of a class, alternation, an optional part and capturing groups.
\<close>

datatype charclass = AnyChar | WhiteSpace | DecimalDigit

fun classHas :: "charclass \<Rightarrow> char \<Rightarrow> bool" where
  "classHas AnyChar c = (c \<noteq> CHR 0x0A)"
| "classHas WhiteSpace c =
     (c \<in> set [CHR 0x09, CHR 0x0A, CHR 0x0B, CHR 0x0C, CHR 0x0D, CHR 0x20])"
| "classHas DecimalDigit c = isDigit c"

datatype regex =
    Bol
  | Eol
  | Lit string
  | Cls charclass
  | Star charclass
  | Plus charclass
  | Opt regex
  | Alt regex regex
  | Seq regex regex
  | Group nat regex

type_synonym captures = "(nat \<times> string) list"

type_synonym mstate = "nat \<times> string \<times> captures"

fun star :: "charclass \<Rightarrow> mstate \<Rightarrow> mstate list" where
  \<comment> \<open>A greedy repetition takes the longest run first and gives characters back one
      at a time.\<close>
  "star cls (pos, [], caps) = [(pos, [], caps)]"
| "star cls (pos, c # cs, caps) =
     (if classHas cls c then star cls (Suc pos, cs, caps) @ [(pos, c # cs, caps)]
      else [(pos, c # cs, caps)])"

fun plus :: "charclass \<Rightarrow> mstate \<Rightarrow> mstate list" where
  \<comment> \<open>At least one repetition.\<close>
  "plus cls (pos, [], caps) = []"
| "plus cls (pos, c # cs, caps) =
     (if classHas cls c then star cls (Suc pos, cs, caps) else [])"

fun matches :: "regex \<Rightarrow> mstate \<Rightarrow> mstate list" where
  \<comment> \<open>Every way the expression matches at the position, in the order in which
      backtracking tries them.  A position is the number of characters before it, the
      rest of the subject and the groups captured so far.\<close>
  "matches Bol (pos, s, caps) = (if pos = 0 then [(pos, s, caps)] else [])"
| "matches Eol (pos, s, caps) =
     (if s = [] \<or> s = [CHR 0x0A] then [(pos, s, caps)] else [])"
| "matches (Lit l) (pos, s, caps) =
     (if startsWith s l then [(pos + length l, drop (length l) s, caps)] else [])"
| "matches (Cls cls) (pos, s, caps) =
     (case s of [] \<Rightarrow> []
      | c # cs \<Rightarrow> if classHas cls c then [(Suc pos, cs, caps)] else [])"
| "matches (Star cls) st = star cls st"
| "matches (Plus cls) st = plus cls st"
| "matches (Opt r) st = matches r st @ [st]"
| "matches (Alt r1 r2) st = matches r1 st @ matches r2 st"
| "matches (Seq r1 r2) st = concat (map (matches r2) (matches r1 st))"
| "matches (Group n r) (pos, s, caps) =
     map (\<lambda>(pos', s', caps'). (pos', s', (n, take (pos' - pos) s) # caps'))
         (matches r (pos, s, caps))"

fun seqs :: "regex list \<Rightarrow> regex" where
  "seqs [] = Lit []"
| "seqs [r] = r"
| "seqs (r # rs) = Seq r (seqs rs)"

fun matchFrom :: "regex \<Rightarrow> string \<Rightarrow> nat \<Rightarrow> nat \<Rightarrow> captures option" where
  \<comment> \<open>The search for the first match: the start offsets in turn, \<open>n\<close> of them left.\<close>
  "matchFrom r s pos 0 = None"
| "matchFrom r s pos (Suc n) =
     (case matches r (pos, drop pos s, []) of
        [] \<Rightarrow> matchFrom r s (Suc pos) n
      | (_, _, caps) # _ \<Rightarrow> Some caps)"

definition match :: "regex \<Rightarrow> string \<Rightarrow> captures option" where
  \<comment> \<open>\<open>QRegularExpression::match\<close>: \<open>None\<close> when \<open>hasMatch()\<close> is false.\<close>
  "match r s = matchFrom r s 0 (Suc (length s))"

definition captured :: "captures \<Rightarrow> nat \<Rightarrow> string" where
  \<comment> \<open>\<open>QRegularExpressionMatch::captured(n)\<close>: empty for a group that took no part.\<close>
  "captured caps n = (case map_of caps n of None \<Rightarrow> [] | Some t \<Rightarrow> t)"

section \<open>The IAR output parser\<close>

subsection \<open>Tasks\<close>

datatype TaskType = Unknown | Error | Warning

definition taskType :: "string \<Rightarrow> TaskType" where
  "taskType msgType =
     (if msgType = ''Warning'' then Warning
      else if msgType = ''Error'' \<or> msgType = ''Fatal error'' then Error
      else Unknown)"

text \<open>
  \<open>ProjectExplorer::Task\<close> is a value class of the host.  Its identifier is kept only
  as far as the parser reads it: \<open>isNull\<close> holds of the default-constructed and of the
  cleared task, and of no task built from arguments.  A format range is kept as its
  start and length.  The file name is the string \<open>Utils::FileName\<close> wraps.
\<close>

record Task =
  isNull :: bool
  type :: TaskType
  description :: string
  file' :: string
  line :: int
  category :: string
  formats :: "(int \<times> int) list"

definition TASK_CATEGORY_COMPILE :: string where
  \<comment> \<open>Modelled from the spec: the host constant \<open>Constants::TASK_CATEGORY_COMPILE\<close> of
      \<open>projectexplorerconstants.h\<close> is not among the sources; the claims call it the
      compile task category.\<close>
  "TASK_CATEGORY_COMPILE = ''Task.Category.Compile''"

definition nullTask :: Task where
  \<comment> \<open>Modelled from the spec: the default constructor \<open>Task()\<close> and \<open>Task::clear()\<close>
      belong to the host's task record, which is not among the sources; both give the
      null task.\<close>
  "nullTask = \<lparr>isNull = True, type = Unknown, description = [], file' = [], line = -1,
               category = [], formats = []\<rparr>"

definition newTaskValue :: "TaskType \<Rightarrow> string \<Rightarrow> string \<Rightarrow> int \<Rightarrow> string \<Rightarrow> Task" where
  \<comment> \<open>Modelled from the spec: the constructor
      \<open>Task(type, description, file, line, category)\<close> of the host's task record, which
      is not among the sources; it stores its arguments, and the task is not null.\<close>
  "newTaskValue ty descr f ln cat =
     \<lparr>isNull = False, type = ty, description = descr, file' = f, line = ln,
      category = cat, formats = []\<rparr>"

subsection \<open>Parser state\<close>

text \<open>
  What leaves the parser is recorded in order: each call of the base-class
  \<open>IOutputParser::stdError\<close> or \<open>IOutputParser::stdOutput\<close> with its argument, and each
  \<open>addTask\<close> signal with its task, linked lines and skipped lines.  The line
  counter and the positions of a format range are C++ \<open>int\<close>s that count lines and
  characters of one diagnostic; they are modelled by \<open>int\<close> without wrap-around.
\<close>

datatype event =
    BaseStdError string
  | BaseStdOutput string
  | AddTask Task int int

record IarParser =
  m_lastTask :: Task
  m_lines :: int
  m_expectSnippet :: bool
  m_expectFilePath :: bool
  m_expectDescription :: bool
  m_snippets :: "string list"
  m_filePathParts :: "string list"
  m_descriptionParts :: "string list"
  emitted :: "event list"

definition IarParser_init :: IarParser where
  \<comment> \<open>Modelled from the spec: the member initialisers stand in \<open>iarewparser.h\<close>, which
      is not among the sources.  A new parser has no pending task and no collected
      lines; it expects snippet lines, as the unit test "Details warning" needs.\<close>
  "IarParser_init =
     \<lparr>m_lastTask = nullTask, m_lines = 0, m_expectSnippet = True,
      m_expectFilePath = False, m_expectDescription = False, m_snippets = [],
      m_filePathParts = [], m_descriptionParts = [], emitted = []\<rparr>"

subsection \<open>Amending and flushing the pending task\<close>

fun appendDescriptionParts :: "string list \<Rightarrow> Task \<Rightarrow> Task" where
  \<comment> \<open>The first loop of \<open>amendDescription\<close>.\<close>
  "appendDescriptionParts [] t = t"
| "appendDescriptionParts (part # parts) t =
     appendDescriptionParts parts (t\<lparr>description := description t @ part\<rparr>)"

fun appendSnippets :: "string list \<Rightarrow> Task \<Rightarrow> int \<Rightarrow> Task \<times> int" where
  \<comment> \<open>The second loop of \<open>amendDescription\<close>, on the task and the line counter.\<close>
  "appendSnippets [] t n = (t, n)"
| "appendSnippets (snippet # snippets) t n =
     (let start = int (length (description t)) + 1;
          t1 = t\<lparr>description := description t @ [CHR 0x0A] @ snippet\<rparr>;
          fr = (start, int (length (description t1)) + 1);
          t2 = t1\<lparr>formats := formats t1 @ [fr]\<rparr>
      in appendSnippets snippets t2 (n + 1))"

definition amendDescription :: "IarParser \<Rightarrow> IarParser" where
  "amendDescription p =
     (let t = appendDescriptionParts (m_descriptionParts p) (m_lastTask p);
          (t', n) = appendSnippets (m_snippets p) t (m_lines p)
      in p\<lparr>m_lastTask := t', m_lines := n, m_descriptionParts := [], m_snippets := []\<rparr>)"

fun appendFilePathParts :: "string list \<Rightarrow> string \<Rightarrow> string" where
  \<comment> \<open>The loop of \<open>amendFilePath\<close>.\<close>
  "appendFilePathParts [] filePath = filePath"
| "appendFilePathParts (part # parts) filePath =
     appendFilePathParts parts (filePath @ trimmed part)"

text \<open>
  \<open>Utils::FileName::fromUserInput\<close> is a function of the host, not among the sources; the
  parser's functions take it as their first argument.
\<close>

definition amendFilePath :: "(string \<Rightarrow> string) \<Rightarrow> IarParser \<Rightarrow> IarParser" where
  "amendFilePath fromUserInput p =
     (if m_filePathParts p = [] then p
      else p\<lparr>m_lastTask := (m_lastTask p)\<lparr>file' :=
                  fromUserInput (appendFilePathParts (m_filePathParts p) [])\<rparr>,
             m_filePathParts := [],
             m_expectFilePath := False\<rparr>)"

definition doFlush :: "(string \<Rightarrow> string) \<Rightarrow> IarParser \<Rightarrow> IarParser" where
  "doFlush fromUserInput p =
     (if isNull (m_lastTask p) then p
      else (let p1 = amendFilePath fromUserInput (amendDescription p);
                p2 = p1\<lparr>m_expectSnippet := True, m_expectFilePath := False,
                         m_expectDescription := False\<rparr>;
                t = m_lastTask p2
            in p2\<lparr>m_lastTask := nullTask,
                   emitted := emitted p2 @ [AddTask t (m_lines p2) 1],
                   m_lines := 0\<rparr>))"

definition newTask :: "(string \<Rightarrow> string) \<Rightarrow> Task \<Rightarrow> IarParser \<Rightarrow> IarParser" where
  "newTask fromUserInput task p =
     (doFlush fromUserInput p)\<lparr>m_lastTask := task, m_lines := 1\<rparr>"

subsection \<open>The three patterns\<close>

definition messageType :: regex where
  \<comment> \<open>\<open>(Error|Fatal error)\<close>, group 1 of the first two patterns.\<close>
  "messageType = Group 1 (Alt (Lit ''Error'') (Lit ''Fatal error''))"

definition splitPathPattern :: regex where
  \<comment> \<open>\<open>^(Error|Fatal error)\[(.+)\]:\s(.+)\s\[(.+)$\<close>\<close>
  "splitPathPattern =
     seqs [Bol, messageType, Lit ''['', Group 2 (Plus AnyChar), Lit '']'', Lit '':'',
           Cls WhiteSpace, Group 3 (Plus AnyChar), Cls WhiteSpace, Lit ''['',
           Group 4 (Plus AnyChar), Eol]"

definition noFilePattern :: regex where
  \<comment> \<open>\<open>^.*(Error|Fatal error)\[(.+)\]:\s(.+)$\<close>\<close>
  "noFilePattern =
     seqs [Bol, Star AnyChar, messageType, Lit ''['', Group 2 (Plus AnyChar), Lit '']'',
           Lit '':'', Cls WhiteSpace, Group 3 (Plus AnyChar), Eol]"

definition fullPattern :: regex where
  \<comment> \<open>\<open>^"(.+)",(\d+)?\s+(Warning|Error|Fatal error)\[(.+)\].+$\<close>\<close>
  "fullPattern =
     seqs [Bol, Lit [CHR 0x22], Group 1 (Plus AnyChar), Lit [CHR 0x22], Lit '','',
           Opt (Group 2 (Plus DecimalDigit)), Plus WhiteSpace,
           Group 3 (Alt (Lit ''Warning'') (Alt (Lit ''Error'') (Lit ''Fatal error''))),
           Lit ''['', Group 4 (Plus AnyChar), Lit '']'', Plus AnyChar, Eol]"

subsection \<open>The two channels\<close>

definition continuation :: "(string \<Rightarrow> string) \<Rightarrow> string \<Rightarrow> IarParser \<Rightarrow> IarParser" where
  \<comment> \<open>The tail of \<open>stdError\<close>, for a right-trimmed line that none of the patterns
      matches.\<close>
  "continuation fromUserInput lne p =
     (if lne = [] then doFlush fromUserInput p
      else if \<not> startsWith lne '' '' then p
      else if m_expectFilePath p then
        (if endsWith lne '']'' then
           doFlush fromUserInput
             (p\<lparr>m_filePathParts := m_filePathParts p @ [left lne (int (length lne) - 1)]\<rparr>)
         else p\<lparr>m_filePathParts := m_filePathParts p @ [lne]\<rparr>)
      else if m_expectSnippet p then
        (if \<not> endsWith lne ''Fatal error detected, aborting.'' then
           p\<lparr>m_snippets := m_snippets p @ [lne]\<rparr>
         else doFlush fromUserInput p)
      else if m_expectDescription p then
        (if \<not> startsWith lne ''            '' then
           p\<lparr>m_descriptionParts := m_descriptionParts p @ [trimmed lne]\<rparr>
         else doFlush fromUserInput p)
      else doFlush fromUserInput p)"

definition stdError :: "(string \<Rightarrow> string) \<Rightarrow> string \<Rightarrow> IarParser \<Rightarrow> IarParser" where
  "stdError fromUserInput ln p0 =
     (let p = p0\<lparr>emitted := emitted p0 @ [BaseStdError ln]\<rparr>;
          lne = rightTrimmed ln
      in case match splitPathPattern lne of
           Some m \<Rightarrow>
             (let ty = taskType (captured m 1);
                  descr = ''['' @ captured m 2 @ '']: '' @ captured m 3;
                  task = newTaskValue ty descr [] (- 1) TASK_CATEGORY_COMPILE;
                  p1 = newTask fromUserInput task p;
                  firstPart = remove (captured m 4) ''referenced from ''
              in p1\<lparr>m_filePathParts := m_filePathParts p1 @ [firstPart],
                     m_expectFilePath := True,
                     m_expectSnippet := False\<rparr>)
         | None \<Rightarrow>
        (case match noFilePattern lne of
           Some m \<Rightarrow>
             (let ty = taskType (captured m 1);
                  descr = ''['' @ captured m 2 @ '']: '' @ captured m 3;
                  task = newTaskValue ty descr [] (- 1) TASK_CATEGORY_COMPILE;
                  p1 = newTask fromUserInput task p
              in p1\<lparr>m_expectSnippet := True,
                     m_expectFilePath := False,
                     m_expectDescription := False\<rparr>)
         | None \<Rightarrow>
        (case match fullPattern lne of
           Some m \<Rightarrow>
             (let fileName = fromUserInput (captured m 1);
                  lineno = toInt (captured m 2);
                  ty = taskType (captured m 3);
                  task = newTaskValue ty [] fileName lineno TASK_CATEGORY_COMPILE;
                  p1 = newTask fromUserInput task p;
                  firstPart = ''['' @ captured m 4 @ '']: ''
              in p1\<lparr>m_descriptionParts := m_descriptionParts p1 @ [firstPart],
                     m_expectDescription := True,
                     m_expectSnippet := False,
                     m_expectFilePath := False\<rparr>)
         | None \<Rightarrow> continuation fromUserInput lne p)))"

definition stdOutput :: "(string \<Rightarrow> string) \<Rightarrow> string \<Rightarrow> IarParser \<Rightarrow> IarParser" where
  "stdOutput fromUserInput ln p0 =
     (let p = p0\<lparr>emitted := emitted p0 @ [BaseStdOutput ln]\<rparr>;
          lne = rightTrimmed ln
      in if \<not> startsWith lne ''Error in command line'' then p
         else (let task = newTaskValue Error (trimmed ln) [] (- 1) TASK_CATEGORY_COMPILE
               in doFlush fromUserInput (newTask fromUserInput task p)))"

text \<open>The host drives the parser: lines on either channel, and flushes.\<close>

datatype input = StdErr string | StdOut string | Flush

fun deliver :: "(string \<Rightarrow> string) \<Rightarrow> input \<Rightarrow> IarParser \<Rightarrow> IarParser" where
  "deliver fromUserInput (StdErr ln) p = stdError fromUserInput ln p"
| "deliver fromUserInput (StdOut ln) p = stdOutput fromUserInput ln p"
| "deliver fromUserInput Flush p = doFlush fromUserInput p"

fun run :: "(string \<Rightarrow> string) \<Rightarrow> input list \<Rightarrow> IarParser \<Rightarrow> IarParser" where
  "run fromUserInput [] p = p"
| "run fromUserInput (i # is) p = run fromUserInput is (deliver fromUserInput i p)"

fun addedTasks :: "event list \<Rightarrow> Task list" where
  "addedTasks [] = []"
| "addedTasks (AddTask t n k # es) = t # addedTasks es"
| "addedTasks (_ # es) = addedTasks es"

section \<open>The quick fix that extracts a component\<close>

subsection \<open>The syntax tree\<close>

text \<open>
  The nodes of the host's QML syntax tree, as far as the quick fix looks at them.  A
  pointer that may be null is an \<open>option\<close>; a linked list of members is a list.
\<close>

datatype ExpressionNode =
    IdentifierExpression string
  | StringLiteral string
  | OtherExpression

datatype Statement =
    ExpressionStatement "ExpressionNode option"
  | OtherStatement

datatype UiQualifiedId =
  UiQualifiedId (name: "string option") (next': "UiQualifiedId option")

datatype UiObjectMember =
    UiScriptBinding (qualifiedId: "UiQualifiedId option") (statement: "Statement option")
  | UiObjectDefinitionMember UiObjectDefinition
  | OtherMember
and UiObjectInitializer =
  UiObjectInitializer (members: "UiObjectMember list")
and UiObjectDefinition =
  UiObjectDefinition (initializer: "UiObjectInitializer option")

datatype Node =
    UiProgramNode
  | UiObjectDefinitionNode UiObjectDefinition
  | OtherNode

subsection \<open>The id of an object definition\<close>

fun idOfMembers :: "UiObjectMember list \<Rightarrow> string" where
  \<comment> \<open>The loop of \<open>getIdProperty\<close> over the members; each \<open>continue\<close> and each fall
      through the end of the body goes on with the rest of the list.\<close>
  "idOfMembers [] = []"
| "idOfMembers (member # rest) =
     (case member of
        UiScriptBinding qid stmt \<Rightarrow>
          (case qid of
             None \<Rightarrow> idOfMembers rest
           | Some q \<Rightarrow>
               if next' q \<noteq> None then idOfMembers rest
               else (case name q of
                  None \<Rightarrow> idOfMembers rest
                | Some n \<Rightarrow>
                    if n = ''id'' then
                      (case stmt of
                         Some (ExpressionStatement e) \<Rightarrow>
                           (case e of
                              Some (IdentifierExpression idName) \<Rightarrow> idName
                            | Some (StringLiteral strValue) \<Rightarrow> strValue
                            | _ \<Rightarrow> idOfMembers rest)
                       | _ \<Rightarrow> idOfMembers rest)
                    else idOfMembers rest))
      | _ \<Rightarrow> idOfMembers rest)"

definition getIdProperty :: "UiObjectDefinition option \<Rightarrow> string" where
  "getIdProperty d =
     (case d of
        None \<Rightarrow> []
      | Some def \<Rightarrow>
          (case initializer def of
             None \<Rightarrow> []
           | Some ini \<Rightarrow> idOfMembers (members ini)))"

text \<open>
  The claim about \<open>getIdProperty\<close> in its own words: the value a member binds to
  \<open>id\<close>, when the member has that shape, and the first member that has it.
\<close>

fun idBinding :: "UiObjectMember \<Rightarrow> string option" where
  "idBinding (UiScriptBinding (Some (UiQualifiedId (Some n) None))
                (Some (ExpressionStatement (Some (IdentifierExpression v))))) =
     (if n = ''id'' then Some v else None)"
| "idBinding (UiScriptBinding (Some (UiQualifiedId (Some n) None))
                (Some (ExpressionStatement (Some (StringLiteral v))))) =
     (if n = ''id'' then Some v else None)"
| "idBinding _ = None"

definition membersOf :: "UiObjectDefinition option \<Rightarrow> UiObjectMember list" where
  "membersOf d =
     (case d of
        None \<Rightarrow> []
      | Some def \<Rightarrow> (case initializer def of None \<Rightarrow> [] | Some ini \<Rightarrow> members ini))"

definition firstIdBinding :: "UiObjectDefinition option \<Rightarrow> string" where
  "firstIdBinding d =
     (case List.find (\<lambda>m. idBinding m \<noteq> None) (membersOf d) of
        None \<Rightarrow> []
      | Some m \<Rightarrow> the (idBinding m))"

subsection \<open>The operation and the matcher\<close>

record Operation =
  opDescription :: string
  priority :: int
  objDef :: "UiObjectDefinition option"

definition newOperation :: "UiObjectDefinition option \<Rightarrow> Operation" where
  \<comment> \<open>The constructor of \<open>Operation\<close>; the description is the untranslated text.\<close>
  "newOperation d = \<lparr>opDescription = ''Extract Component'', priority = 0, objDef = d\<rparr>"

record QmlJSQuickFixState =
  position :: int
  astPath :: "int \<Rightarrow> Node list"

definition isUiProgram :: "Node \<Rightarrow> bool" where
  "isUiProgram n = (case n of UiProgramNode \<Rightarrow> True | _ \<Rightarrow> False)"

fun matchLoop :: "Node list \<Rightarrow> nat \<Rightarrow> Operation list" where
  \<comment> \<open>The loop of \<open>ComponentFromObjectDef::match\<close>; the second argument is \<open>i + 1\<close>, so
      that 0 is the exit of the loop, where the empty result is returned.\<close>
  "matchLoop path 0 = []"
| "matchLoop path (Suc i) =
     (case path ! i of
        UiObjectDefinitionNode d \<Rightarrow>
          if i > 0 \<and> \<not> isUiProgram (path ! (i - 1)) then
            (if getIdProperty (Some d) \<noteq> [] then [newOperation (Some d)]
             else matchLoop path i)
          else matchLoop path i
      | _ \<Rightarrow> matchLoop path i)"

definition matchOperations :: "QmlJSQuickFixState \<Rightarrow> Operation list" where
  \<comment> \<open>\<open>ComponentFromObjectDef::match\<close>.\<close>
  "matchOperations state =
     (let pos = position state; path = astPath state pos
      in matchLoop path (length path))"

datatype failure = AssertionFailed | IndexOutOfRange

definition componentName :: "(char \<Rightarrow> char) \<Rightarrow> Operation \<Rightarrow> failure + string" where
  \<comment> \<open>The first statements of \<open>Operation::createChanges\<close>, up to the component name
      with its first character in upper case.  \<open>QChar::toUpper\<close> is the host's and is
      taken as an argument.  Reading position 0 of an empty string is a failure.\<close>
  "componentName toUpper op =
     (if objDef op = None then Inl AssertionFailed
      else (case getIdProperty (objDef op) of
              [] \<Rightarrow> Inl IndexOutOfRange
            | c # cs \<Rightarrow> Inr (toUpper c # cs)))"

section \<open>Notions the properties are stated with\<close>

subsection \<open>Flushing, and the lines that continue a diagnostic\<close>

definition snippetText :: "string list \<Rightarrow> string" where
  "snippetText snippets = concat (map (\<lambda>s. CHR 0x0A # s) snippets)"

definition flushedTask :: "(string \<Rightarrow> string) \<Rightarrow> IarParser \<Rightarrow> Task" where
  "flushedTask fromUserInput p = m_lastTask (amendFilePath fromUserInput (amendDescription p))"

definition IarParser_inv :: "IarParser \<Rightarrow> bool" where
  "IarParser_inv p \<longleftrightarrow>
     (if isNull (m_lastTask p)
      then m_lines p = 0 \<and> m_descriptionParts p = [] \<and> m_filePathParts p = [] \<and>
           \<not> m_expectFilePath p \<and> \<not> m_expectDescription p
      else category (m_lastTask p) = TASK_CATEGORY_COMPILE)"

definition noPatternMatches :: "string \<Rightarrow> bool" where
  "noPatternMatches lne \<longleftrightarrow>
     match splitPathPattern lne = None \<and> match noFilePattern lne = None \<and>
     match fullPattern lne = None"

definition indented :: "string \<Rightarrow> bool" where
  "indented lne \<longleftrightarrow> startsWith lne '' ''"

definition descriptionPhaseLine :: "string \<Rightarrow> bool" where
  "descriptionPhaseLine ln \<longleftrightarrow>
     (let lne = rightTrimmed ln
      in noPatternMatches lne \<and> lne \<noteq> [] \<and>
         (if indented lne then \<not> startsWith lne ''            '' else True))"

definition pathPhaseLine :: "string \<Rightarrow> bool" where
  "pathPhaseLine ln \<longleftrightarrow>
     (let lne = rightTrimmed ln
      in noPatternMatches lne \<and> lne \<noteq> [] \<and>
         (if indented lne then \<not> endsWith lne '']'' else True))"

definition pathEndLine :: "string \<Rightarrow> bool" where
  "pathEndLine ln \<longleftrightarrow>
     (let lne = rightTrimmed ln
      in noPatternMatches lne \<and> indented lne \<and> endsWith lne '']'')"

fun isAddTask :: "event \<Rightarrow> bool" where
  "isAddTask (AddTask t n k) = True"
| "isAddTask _ = False"

definition onlyCompileTasks :: "event list \<Rightarrow> bool" where
  "onlyCompileTasks es \<longleftrightarrow>
     list_all (\<lambda>t. category t = TASK_CATEGORY_COMPILE) (addedTasks es)"

definition pendingSnippets :: "IarParser \<Rightarrow> string list" where
  \<comment> \<open>The snippet lines collected while no task is pending; the next task gets them.\<close>
  "pendingSnippets p = (if isNull (m_lastTask p) then m_snippets p else [])"

subsection \<open>Nodes the matcher accepts\<close>

definition qualifies :: "Node list \<Rightarrow> nat \<Rightarrow> bool" where
  \<comment> \<open>The node at index \<open>i\<close> of the path is an object definition, is not the root
      object (it is not first, and what precedes it is not the program) and has an id.\<close>
  "qualifies path i \<longleftrightarrow>
     i < length path \<and>
     (case path ! i of
        UiObjectDefinitionNode d \<Rightarrow>
          0 < i \<and> \<not> isUiProgram (path ! (i - 1)) \<and> getIdProperty (Some d) \<noteq> []
      | _ \<Rightarrow> False)"

subsection \<open>A small document\<close>

definition rootObject :: UiObjectDefinition where
  "rootObject = UiObjectDefinition (Some (UiObjectInitializer
     [UiScriptBinding (Some (UiQualifiedId (Some ''id'') None))
        (Some (ExpressionStatement (Some (IdentifierExpression ''root''))))]))"

definition innerObject :: UiObjectDefinition where
  "innerObject = UiObjectDefinition (Some (UiObjectInitializer
     [UiScriptBinding (Some (UiQualifiedId (Some ''width'') None)) (Some OtherStatement),
      UiScriptBinding (Some (UiQualifiedId (Some ''id'') None))
        (Some (ExpressionStatement (Some (StringLiteral ''button''))))]))"

definition examplePath :: "Node list" where
  "examplePath = [UiProgramNode, UiObjectDefinitionNode rootObject, OtherNode,
     UiObjectDefinitionNode innerObject, OtherNode]"

definition asciiToUpper :: "char \<Rightarrow> char" where
  \<comment> \<open>\<open>QChar::toUpper\<close> on the letters a to z; used for the example only.\<close>
  "asciiToUpper c =
     (case map_of (zip ''abcdefghijklmnopqrstuvwxyz'' ''ABCDEFGHIJKLMNOPQRSTUVWXYZ'') c of
        None \<Rightarrow> c
      | Some u \<Rightarrow> u)"

definition exampleState :: QmlJSQuickFixState where
  "exampleState = \<lparr>position = 7, astPath = (\<lambda>pos. examplePath)\<rparr>"

definition rootOnlyState :: QmlJSQuickFixState where
  "rootOnlyState =
     \<lparr>position = 7, astPath = (\<lambda>pos. [UiProgramNode, UiObjectDefinitionNode rootObject])\<rparr>"

subsection \<open>Example lines\<close>

definition fullLine :: string where
  "fullLine = CHR 0x22 # ''a'' @ CHR 0x22 # '',5 Warning[w]:''"

definition shadowedLine :: string where
  "shadowedLine = CHR 0x22 # ''a'' @ CHR 0x22 # '',5 Error[e]: d''"

definition fourBranches :: "input list" where
  "fourBranches = [StdOut ''Error in command line'', StdErr fullLine, StdErr ''Error[e]: d'',
     StdErr ''Error[e]: d [p'', Flush]"

definition pendingExample :: IarParser where
  "pendingExample = run id [StdErr ''Error[e]: d''] IarParser_init"

definition splitLine :: string where
  "splitLine = ''Error[e]: d [referenced from c:''"

definition snippetFirst :: "input list" where
  "snippetFirst = [StdErr ''  x'', StdErr ''Error[e]: d [p'', StdErr '' o]'']"

subsection \<open>Inputs of the parser's unit tests\<close>

definition mainC :: string where
  \<comment> \<open>The path \<open>c:\foo\main.c\<close> of the unit tests.\<close>
  "mainC = ''c:'' @ CHR 0x5C # ''foo'' @ CHR 0x5C # ''main.c''"

definition testDetailsWarning :: "input list" where
  "testDetailsWarning =
     [StdErr ''      some_detail;'',
      StdErr ''      ^'',
      StdErr (CHR 0x22 # mainC @ CHR 0x22 # '',63 Warning[Pe223]:''),
      StdErr ''          Some warning'',
      Flush]"

definition testNoDefinitionFor :: "input list" where
  "testNoDefinitionFor =
     [StdErr (''Error[Li005]: Some error '' @ CHR 0x22 # ''foo'' @ CHR 0x22 #
              '' [referenced from c:'' @ CHR 0x5C # ''fo''),
      StdErr (''         o'' @ CHR 0x5C # ''bar'' @ CHR 0x5C # ''mai''),
      StdErr ''         n.c.o'',
      StdErr '']'',
      Flush]"

definition testMoreThanOneSourceFile :: "input list" where
  "testMoreThanOneSourceFile =
     [StdErr ''Fatal error[Su011]: Some error:'',
      StdErr (''                      c:'' @ CHR 0x5C # ''foo.c''),
      StdErr (''            c:'' @ CHR 0x5C # ''bar.c''),
      StdErr ''Fatal error detected, aborting.'',
      Flush]"

definition taskSummary :: "Task \<Rightarrow> TaskType \<times> string \<times> string \<times> int \<times> string" where
  "taskSummary t = (type t, description t, file' t, line t, category t)"

section \<open>Properties of the output parser\<close>

subsection \<open>Trimming, amending and flushing\<close>

lemma rightTrimmed_idem: "rightTrimmed (rightTrimmed s) = rightTrimmed s"
  by (simp add: rightTrimmed_def)

lemma trimmed_rightTrimmed: "trimmed (rightTrimmed s) = trimmed s"
  by (simp add: trimmed_def rightTrimmed_idem)

lemma appendDescriptionParts_eq:
  "appendDescriptionParts parts t = t\<lparr>description := description t @ concat parts\<rparr>"
  by (induction parts arbitrary: t) simp_all

lemma appendFilePathParts_eq:
  "appendFilePathParts parts acc = acc @ concat (map trimmed parts)"
  by (induction parts arbitrary: acc) simp_all

lemma appendSnippets_description:
  "description (fst (appendSnippets ss t n)) = description t @ snippetText ss"
  by (induction ss arbitrary: t n) (simp_all add: snippetText_def Let_def)

lemma appendSnippets_lines: "snd (appendSnippets ss t n) = n + int (length ss)"
  by (induction ss arbitrary: t n) (simp_all add: Let_def)

lemma appendSnippets_frame:
  "isNull (fst (appendSnippets ss t n)) = isNull t \<and>
   type (fst (appendSnippets ss t n)) = type t \<and>
   file' (fst (appendSnippets ss t n)) = file' t \<and>
   line (fst (appendSnippets ss t n)) = line t \<and>
   category (fst (appendSnippets ss t n)) = category t"
  by (induction ss arbitrary: t n) (simp_all add: Let_def)

lemma amendDescription_fields:
  "m_lines (amendDescription p) = m_lines p + int (length (m_snippets p))"
  "m_descriptionParts (amendDescription p) = []"
  "m_snippets (amendDescription p) = []"
  "m_filePathParts (amendDescription p) = m_filePathParts p"
  "m_expectSnippet (amendDescription p) = m_expectSnippet p"
  "m_expectFilePath (amendDescription p) = m_expectFilePath p"
  "m_expectDescription (amendDescription p) = m_expectDescription p"
  "emitted (amendDescription p) = emitted p"
  by (simp_all add: amendDescription_def Let_def split_beta appendSnippets_lines)

lemma amendDescription_task:
  "description (m_lastTask (amendDescription p)) =
     description (m_lastTask p) @ concat (m_descriptionParts p) @ snippetText (m_snippets p)"
  "isNull (m_lastTask (amendDescription p)) = isNull (m_lastTask p)"
  "type (m_lastTask (amendDescription p)) = type (m_lastTask p)"
  "file' (m_lastTask (amendDescription p)) = file' (m_lastTask p)"
  "line (m_lastTask (amendDescription p)) = line (m_lastTask p)"
  "category (m_lastTask (amendDescription p)) = category (m_lastTask p)"
  by (simp_all add: amendDescription_def Let_def split_beta appendSnippets_description
        appendSnippets_frame appendDescriptionParts_eq)

lemma flushedTask_fields:
  "description (flushedTask f p) =
     description (m_lastTask p) @ concat (m_descriptionParts p) @ snippetText (m_snippets p)"
  "file' (flushedTask f p) =
     (if m_filePathParts p = [] then file' (m_lastTask p)
      else f (concat (map trimmed (m_filePathParts p))))"
  "isNull (flushedTask f p) = isNull (m_lastTask p)"
  "type (flushedTask f p) = type (m_lastTask p)"
  "line (flushedTask f p) = line (m_lastTask p)"
  "category (flushedTask f p) = category (m_lastTask p)"
  by (simp_all add: flushedTask_def amendFilePath_def amendDescription_fields
        amendDescription_task appendFilePathParts_eq)

lemma flushedTask_emitted: "flushedTask f (p\<lparr>emitted := es\<rparr>) = flushedTask f p"
  by (simp add: flushedTask_def amendFilePath_def amendDescription_def Let_def split_beta)

lemma newTaskValue_fields:
  "isNull (newTaskValue ty d fl n c) = False"
  "type (newTaskValue ty d fl n c) = ty"
  "description (newTaskValue ty d fl n c) = d"
  "file' (newTaskValue ty d fl n c) = fl"
  "line (newTaskValue ty d fl n c) = n"
  "category (newTaskValue ty d fl n c) = c"
  by (simp_all add: newTaskValue_def)

lemma doFlush_null: "isNull (m_lastTask p) \<Longrightarrow> doFlush f p = p"
  by (simp add: doFlush_def)

lemma doFlush_pending:
  "\<not> isNull (m_lastTask p) \<Longrightarrow>
   doFlush f p =
     \<lparr>m_lastTask = nullTask, m_lines = 0, m_expectSnippet = True,
      m_expectFilePath = False, m_expectDescription = False, m_snippets = [],
      m_filePathParts = [], m_descriptionParts = [],
      emitted = emitted p @
        [AddTask (flushedTask f p) (m_lines p + int (length (m_snippets p))) 1]\<rparr>"
  by (simp add: doFlush_def Let_def flushedTask_def amendFilePath_def amendDescription_fields)

lemma doFlush_emitted:
  "emitted (doFlush f p) =
     emitted p @ (if isNull (m_lastTask p) then []
                  else [AddTask (flushedTask f p) (m_lines p + int (length (m_snippets p))) 1])"
  by (simp add: doFlush_null doFlush_pending)

lemma addedTasks_append: "addedTasks (xs @ ys) = addedTasks xs @ addedTasks ys"
  by (induction xs rule: addedTasks.induct) simp_all

lemma run_append: "run f (xs @ ys) p = run f ys (run f xs p)"
  by (induction xs arbitrary: p) simp_all

subsection \<open>The invariant of the parser state\<close>

lemma doFlush_inv_fields:
  assumes "IarParser_inv p"
  shows "isNull (m_lastTask (doFlush f p))"
    and "m_lines (doFlush f p) = 0"
    and "m_descriptionParts (doFlush f p) = []"
    and "m_filePathParts (doFlush f p) = []"
    and "m_snippets (doFlush f p) = (if isNull (m_lastTask p) then m_snippets p else [])"
    and "\<not> m_expectFilePath (doFlush f p)"
    and "\<not> m_expectDescription (doFlush f p)"
  using assms
  by (cases "isNull (m_lastTask p)";
      simp add: doFlush_null doFlush_pending IarParser_inv_def nullTask_def)+

lemma doFlush_inv: "IarParser_inv p \<Longrightarrow> IarParser_inv (doFlush f p)"
  by (simp add: IarParser_inv_def doFlush_inv_fields)

lemma doFlush_idem: "IarParser_inv p \<Longrightarrow> doFlush f (doFlush f p) = doFlush f p"
  by (simp add: doFlush_null doFlush_inv_fields)

lemma inv_emitted: "IarParser_inv (p\<lparr>emitted := es\<rparr>) = IarParser_inv p"
  by (simp add: IarParser_inv_def)

lemma newTask_fields:
  assumes "IarParser_inv p"
  shows "m_lastTask (newTask f t p) = t"
    and "m_lines (newTask f t p) = 1"
    and "m_descriptionParts (newTask f t p) = []"
    and "m_filePathParts (newTask f t p) = []"
    and "m_snippets (newTask f t p) = (if isNull (m_lastTask p) then m_snippets p else [])"
    and "emitted (newTask f t p) = emitted (doFlush f p)"
  using assms by (simp_all add: newTask_def doFlush_inv_fields)

lemma newTask_inv:
  "IarParser_inv p \<Longrightarrow> category t = TASK_CATEGORY_COMPILE \<Longrightarrow> \<not> isNull t \<Longrightarrow>
   IarParser_inv (newTask f t p)"
  by (simp add: IarParser_inv_def newTask_def)

lemma continuation_inv:
  assumes "IarParser_inv p"
  shows "IarParser_inv (continuation f lne p)"
proof -
  have a: "m_expectFilePath p \<Longrightarrow> IarParser_inv (p\<lparr>m_filePathParts := x\<rparr>)" for x
    using assms by (auto simp: IarParser_inv_def split: if_splits)
  have b: "IarParser_inv (p\<lparr>m_snippets := x\<rparr>)" for x
    using assms by (auto simp: IarParser_inv_def split: if_splits)
  have c: "m_expectDescription p \<Longrightarrow> IarParser_inv (p\<lparr>m_descriptionParts := x\<rparr>)" for x
    using assms by (auto simp: IarParser_inv_def split: if_splits)
  show ?thesis
    using assms a b c by (simp add: continuation_def doFlush_inv)
qed

lemma stdError_inv:
  assumes "IarParser_inv p"
  shows "IarParser_inv (stdError f ln p)"
proof -
  let ?p = "p\<lparr>emitted := emitted p @ [BaseStdError ln]\<rparr>"
  have i: "IarParser_inv ?p" using assms by (simp add: inv_emitted)
  have n: "IarParser_inv (newTask f (newTaskValue ty d fl n TASK_CATEGORY_COMPILE) ?p)"
    for ty d fl n
    using i by (rule newTask_inv) (simp_all add: newTaskValue_def)
  have u: "IarParser_inv q \<Longrightarrow> \<not> isNull (m_lastTask q) \<Longrightarrow>
      IarParser_inv (q\<lparr>m_filePathParts := a, m_expectFilePath := b, m_expectSnippet := c\<rparr>) \<and>
      IarParser_inv (q\<lparr>m_expectSnippet := c, m_expectFilePath := b, m_expectDescription := d\<rparr>) \<and>
      IarParser_inv (q\<lparr>m_descriptionParts := a, m_expectDescription := d,
                       m_expectSnippet := c, m_expectFilePath := b\<rparr>)" for q a b c d
    by (simp add: IarParser_inv_def)
  have nn: "\<not> isNull (m_lastTask (newTask f (newTaskValue ty d fl n TASK_CATEGORY_COMPILE) ?p))"
    for ty d fl n
    by (simp add: newTask_def newTaskValue_def)
  show ?thesis
    unfolding stdError_def Let_def
    using u [OF n nn] continuation_inv [OF i]
    by (simp split: option.splits)
qed

lemma stdOutput_inv:
  assumes "IarParser_inv p"
  shows "IarParser_inv (stdOutput f ln p)"
proof -
  let ?p = "p\<lparr>emitted := emitted p @ [BaseStdOutput ln]\<rparr>"
  have i: "IarParser_inv ?p" using assms by (simp add: inv_emitted)
  have n: "IarParser_inv (newTask f (newTaskValue ty d fl n TASK_CATEGORY_COMPILE) ?p)"
    for ty d fl n
    using i by (rule newTask_inv) (simp_all add: newTaskValue_def)
  show ?thesis
    unfolding stdOutput_def Let_def using i n by (simp add: doFlush_inv)
qed

lemma init_inv: "IarParser_inv IarParser_init"
  by (simp add: IarParser_inv_def IarParser_init_def nullTask_def)

lemma deliver_inv: "IarParser_inv p \<Longrightarrow> IarParser_inv (deliver f i p)"
  by (cases i) (simp_all add: stdError_inv stdOutput_inv doFlush_inv)

lemma run_inv: "IarParser_inv p \<Longrightarrow> IarParser_inv (run f ins p)"
  by (induction ins arbitrary: p) (simp_all add: deliver_inv)

subsection \<open>Lines are passed on\<close>

lemma doFlush_adds:
  "\<exists>es. emitted (doFlush f p) = emitted p @ es \<and> list_all isAddTask es"
  by (simp add: doFlush_emitted)

lemma newTask_adds:
  "\<exists>es. emitted (newTask f t p) = emitted p @ es \<and> list_all isAddTask es"
  using doFlush_adds [of f p] by (simp add: newTask_def)

lemma continuation_adds:
  "\<exists>es. emitted (continuation f lne p) = emitted p @ es \<and> list_all isAddTask es"
  by (simp add: continuation_def doFlush_emitted)

text \<open>
  C7.  For every delivered line, \<open>stdError\<close> and \<open>stdOutput\<close> first hand the line, as it
  came, to the base-class implementation; whatever else they send out, the tasks, comes
  after it.  The line is passed on whether or not it is recognised.
\<close>

theorem line_passed_on_first:
  "(\<exists>es. emitted (stdError f ln p) = emitted p @ BaseStdError ln # es \<and>
         list_all isAddTask es) \<and>
   (\<exists>es. emitted (stdOutput f ln p) = emitted p @ BaseStdOutput ln # es \<and>
         list_all isAddTask es)"
proof
  let ?p = "p\<lparr>emitted := emitted p @ [BaseStdError ln]\<rparr>"
  have n: "\<exists>es. emitted (newTask f t ?p) = emitted p @ BaseStdError ln # es \<and>
      list_all isAddTask es" for t
    using newTask_adds [of f t ?p] by simp
  have c: "\<exists>es. emitted (continuation f lne ?p) = emitted p @ BaseStdError ln # es \<and>
      list_all isAddTask es" for lne
    using continuation_adds [of f lne ?p] by simp
  show "\<exists>es. emitted (stdError f ln p) = emitted p @ BaseStdError ln # es \<and>
      list_all isAddTask es"
    unfolding stdError_def Let_def using n c by (simp split: option.splits)
next
  let ?p = "p\<lparr>emitted := emitted p @ [BaseStdOutput ln]\<rparr>"
  have "\<exists>es. emitted (doFlush f (newTask f t ?p)) = emitted p @ BaseStdOutput ln # es \<and>
      list_all isAddTask es" for t
  proof -
    obtain es1 where 1: "emitted (newTask f t ?p) = emitted ?p @ es1" "list_all isAddTask es1"
      using newTask_adds [of f t ?p] by blast
    obtain es2 where 2: "emitted (doFlush f (newTask f t ?p)) = emitted (newTask f t ?p) @ es2"
      "list_all isAddTask es2"
      using doFlush_adds [of f "newTask f t ?p"] by blast
    from 1 2 have "emitted (doFlush f (newTask f t ?p)) =
        emitted p @ BaseStdOutput ln # (es1 @ es2) \<and> list_all isAddTask (es1 @ es2)"
      by simp
    then show ?thesis by blast
  qed
  then show "\<exists>es. emitted (stdOutput f ln p) = emitted p @ BaseStdOutput ln # es \<and>
      list_all isAddTask es"
    unfolding stdOutput_def Let_def by simp
qed

subsection \<open>The category of the emitted tasks\<close>

lemma doFlush_only:
  "IarParser_inv p \<Longrightarrow> onlyCompileTasks (emitted p) \<Longrightarrow>
   onlyCompileTasks (emitted (doFlush f p))"
  by (simp add: onlyCompileTasks_def doFlush_emitted addedTasks_append flushedTask_fields
        IarParser_inv_def)

lemma newTask_only:
  "IarParser_inv p \<Longrightarrow> onlyCompileTasks (emitted p) \<Longrightarrow>
   onlyCompileTasks (emitted (newTask f t p))"
  using doFlush_only [of p f] by (simp add: newTask_def)

lemma continuation_only:
  assumes "IarParser_inv p" and "onlyCompileTasks (emitted p)"
  shows "onlyCompileTasks (emitted (continuation f lne p))"
proof -
  have "m_expectFilePath p \<Longrightarrow> IarParser_inv (p\<lparr>m_filePathParts := x\<rparr>)" for x
    using assms(1) by (auto simp: IarParser_inv_def split: if_splits)
  then have "m_expectFilePath p \<Longrightarrow>
      onlyCompileTasks (emitted (doFlush f (p\<lparr>m_filePathParts := x\<rparr>)))" for x
    using assms(2) by (simp add: doFlush_only)
  then show ?thesis
    using assms by (simp add: continuation_def doFlush_only)
qed

lemma only_base:
  "onlyCompileTasks (es @ [BaseStdError ln]) = onlyCompileTasks es"
  "onlyCompileTasks (es @ [BaseStdOutput ln]) = onlyCompileTasks es"
  by (simp_all add: onlyCompileTasks_def addedTasks_append)

lemma stdError_only:
  assumes "IarParser_inv p" and "onlyCompileTasks (emitted p)"
  shows "onlyCompileTasks (emitted (stdError f ln p))"
proof -
  let ?p = "p\<lparr>emitted := emitted p @ [BaseStdError ln]\<rparr>"
  have i: "IarParser_inv ?p" using assms(1) by (simp add: inv_emitted)
  have o: "onlyCompileTasks (emitted ?p)" using assms(2) by (simp add: only_base)
  show ?thesis
    unfolding stdError_def Let_def
    using newTask_only [OF i o] continuation_only [OF i o]
    by (simp split: option.splits)
qed

lemma stdOutput_only:
  assumes "IarParser_inv p" and "onlyCompileTasks (emitted p)"
  shows "onlyCompileTasks (emitted (stdOutput f ln p))"
proof -
  let ?p = "p\<lparr>emitted := emitted p @ [BaseStdOutput ln]\<rparr>"
  have i: "IarParser_inv ?p" using assms(1) by (simp add: inv_emitted)
  have o: "onlyCompileTasks (emitted ?p)" using assms(2) by (simp add: only_base)
  have "onlyCompileTasks (emitted (doFlush f
      (newTask f (newTaskValue ty d fl n TASK_CATEGORY_COMPILE) ?p)))" for ty d fl n
    by (rule doFlush_only [OF newTask_inv [OF i] newTask_only [OF i o]])
      (simp_all add: newTaskValue_def)
  then show ?thesis
    unfolding stdOutput_def Let_def using o by simp
qed

lemma run_only:
  "IarParser_inv p \<Longrightarrow> onlyCompileTasks (emitted p) \<Longrightarrow>
   onlyCompileTasks (emitted (run f ins p))"
proof (induction ins arbitrary: p)
  case Nil
  then show ?case by simp
next
  case (Cons i ins)
  have "IarParser_inv (deliver f i p)"
    using Cons.prems(1) by (rule deliver_inv)
  moreover have "onlyCompileTasks (emitted (deliver f i p))"
    using Cons.prems by (cases i) (simp_all add: stdError_only stdOutput_only doFlush_only)
  ultimately show ?case
    using Cons.IH by simp
qed

text \<open>
  C6.  Every task the parser emits through \<open>addTask\<close>, whichever branch made it,
  carries the compile task category.
\<close>

theorem emitted_tasks_compile_category:
  "\<forall>t \<in> set (addedTasks (emitted (run f ins IarParser_init))).
     category t = TASK_CATEGORY_COMPILE"
  using run_only [OF init_inv, of f ins]
  by (simp add: onlyCompileTasks_def list_all_iff IarParser_init_def)

theorem emitted_tasks_compile_category_witness:
  "map category (addedTasks (emitted (run id fourBranches IarParser_init))) =
     [TASK_CATEGORY_COMPILE, TASK_CATEGORY_COMPILE, TASK_CATEGORY_COMPILE,
      TASK_CATEGORY_COMPILE]"
proof -
  let ?ts = "addedTasks (emitted (run id fourBranches IarParser_init))"
  have "length ?ts = 4"
    by code_simp
  moreover have "map category ?ts = replicate (length ?ts) TASK_CATEGORY_COMPILE"
    using emitted_tasks_compile_category [of id fourBranches]
    by (simp add: map_replicate_const [symmetric])
  ultimately show ?thesis
    by (simp add: numeral_eq_Suc)
qed

subsection \<open>Flushing twice\<close>

text \<open>
  C8.  \<open>doFlush\<close> is idempotent.  With no pending task it emits nothing and leaves the
  parser as it is; after it the pending task is null and the line counter is 0, so a
  second \<open>doFlush\<close> changes nothing.  \<open>newTask\<close> flushes first, so a pending task is
  emitted, not overwritten.
\<close>

theorem doFlush_idempotent:
  assumes "p = run f ins IarParser_init"
  shows "(isNull (m_lastTask p) \<longrightarrow> doFlush f p = p) \<and>
         isNull (m_lastTask (doFlush f p)) \<and>
         m_lines (doFlush f p) = 0 \<and>
         doFlush f (doFlush f p) = doFlush f p \<and>
         emitted (newTask f t p) = emitted (doFlush f p) \<and>
         (\<not> isNull (m_lastTask p) \<longrightarrow>
            emitted (newTask f t p) =
              emitted p @
              [AddTask (flushedTask f p) (m_lines p + int (length (m_snippets p))) 1])"
proof -
  have "IarParser_inv p"
    unfolding assms by (rule run_inv [OF init_inv])
  then show ?thesis
    by (simp add: doFlush_null doFlush_inv_fields doFlush_idem newTask_fields
          doFlush_emitted)
qed

theorem doFlush_idempotent_witness:
  "\<not> isNull (m_lastTask pendingExample) \<and>
   isNull (m_lastTask (doFlush id pendingExample)) \<and>
   m_lines (doFlush id pendingExample) = 0 \<and>
   doFlush id (doFlush id pendingExample) = doFlush id pendingExample \<and>
   emitted (newTask id nullTask pendingExample) =
     emitted pendingExample @
     [AddTask (flushedTask id pendingExample)
        (m_lines pendingExample + int (length (m_snippets pendingExample))) 1]"
proof -
  have "\<not> isNull (m_lastTask pendingExample)"
    by code_simp
  then show ?thesis
    using doFlush_idempotent [OF pendingExample_def, of nullTask] by blast
qed

subsection \<open>Errors in the command line\<close>

text \<open>
  C5 (amended).  \<open>stdOutput\<close> produces a task exactly when the right-trimmed line
  starts with "Error in command line".  The task is flushed at once, behind the pending
  task if there is one; it has type \<open>Error\<close>, no file name, line number -1 and the
  compile category.  Its description is the trimmed line, followed by the snippet lines
  that were collected while no task was pending, each after a line feed; it is the
  trimmed line alone when there are none.  Any other line produces no task.
\<close>

theorem stdOutput_command_line_error:
  assumes "p = run f ins IarParser_init"
  shows "(\<not> startsWith (rightTrimmed ln) ''Error in command line'' \<longrightarrow>
            stdOutput f ln p = p\<lparr>emitted := emitted p @ [BaseStdOutput ln]\<rparr>) \<and>
         (startsWith (rightTrimmed ln) ''Error in command line'' \<longrightarrow>
            (\<exists>t. emitted (stdOutput f ln p) =
                   emitted p @ [BaseStdOutput ln] @
                   (if isNull (m_lastTask p) then []
                    else [AddTask (flushedTask f p)
                            (m_lines p + int (length (m_snippets p))) 1]) @
                   [AddTask t (1 + int (length (pendingSnippets p))) 1] \<and>
                 type t = Error \<and>
                 description t = trimmed ln @ snippetText (pendingSnippets p) \<and>
                 file' t = [] \<and> line t = - 1 \<and> category t = TASK_CATEGORY_COMPILE) \<and>
            isNull (m_lastTask (stdOutput f ln p)))"
proof -
  let ?p = "p\<lparr>emitted := emitted p @ [BaseStdOutput ln]\<rparr>"
  let ?T = "newTaskValue Error (trimmed ln) [] (- 1) TASK_CATEGORY_COMPILE"
  let ?q = "newTask f ?T ?p"
  have "IarParser_inv p"
    unfolding assms by (rule run_inv [OF init_inv])
  then have i: "IarParser_inv ?p" by (simp add: inv_emitted)
  note q = newTask_fields [OF i, of f ?T]
  have nn: "\<not> isNull (m_lastTask ?q)" by (simp add: q newTaskValue_fields)
  have e: "emitted (doFlush f ?q) =
      emitted p @ [BaseStdOutput ln] @
      (if isNull (m_lastTask p) then []
       else [AddTask (flushedTask f p) (m_lines p + int (length (m_snippets p))) 1]) @
      [AddTask (flushedTask f ?q) (1 + int (length (pendingSnippets p))) 1]"
    by (simp add: doFlush_emitted [of f ?q] q newTaskValue_fields
          doFlush_emitted [of f ?p] flushedTask_emitted pendingSnippets_def)
  have t: "type (flushedTask f ?q) = Error \<and>
      description (flushedTask f ?q) = trimmed ln @ snippetText (pendingSnippets p) \<and>
      file' (flushedTask f ?q) = [] \<and> line (flushedTask f ?q) = - 1 \<and>
      category (flushedTask f ?q) = TASK_CATEGORY_COMPILE"
    by (simp add: flushedTask_fields q newTaskValue_fields pendingSnippets_def)
  have n: "isNull (m_lastTask (doFlush f ?q))"
    by (simp add: doFlush_pending [OF nn] nullTask_def)
  show ?thesis
    unfolding stdOutput_def Let_def using e t n by auto
qed

theorem stdOutput_command_line_error_witness:
  "startsWith (rightTrimmed ''Error in command line: x '') ''Error in command line'' \<and>
   (\<exists>t. emitted (stdOutput id ''Error in command line: x '' IarParser_init) =
          [BaseStdOutput ''Error in command line: x '', AddTask t 1 1] \<and>
        type t = Error \<and> description t = ''Error in command line: x'' \<and>
        file' t = [] \<and> line t = - 1) \<and>
   \<not> startsWith (rightTrimmed ''Sometext'') ''Error in command line'' \<and>
   emitted (stdOutput id ''Sometext'' IarParser_init) = [BaseStdOutput ''Sometext'']"
proof -
  have r: "IarParser_init = run id [] IarParser_init" by simp
  have s: "startsWith (rightTrimmed ''Error in command line: x '') ''Error in command line''"
    by (simp add: startsWith_def rightTrimmed_def isSpace_def)
  have t: "trimmed ''Error in command line: x '' = ''Error in command line: x''"
    by (simp add: trimmed_def rightTrimmed_def isSpace_def)
  have n: "\<not> startsWith (rightTrimmed ''Sometext'') ''Error in command line''"
    by (simp add: startsWith_def rightTrimmed_def isSpace_def)
  have i: "isNull (m_lastTask IarParser_init) \<and> pendingSnippets IarParser_init = [] \<and>
      emitted IarParser_init = []"
    by (simp add: IarParser_init_def nullTask_def pendingSnippets_def)
  show ?thesis
    using s t n i stdOutput_command_line_error [OF r, of "''Error in command line: x ''"]
      stdOutput_command_line_error [OF r, of "''Sometext''"]
    by (auto simp: snippetText_def)
qed

lemma snippet_then_command_line_error:
  "addedTasks (emitted (stdOutput id ''Error in command line''
      (stdError id ''  x'' IarParser_init))) =
   [\<lparr>isNull = False, type = Error,
     description = ''Error in command line'' @ CHR 0x0A # ''  x'', file' = [], line = - 1,
     category = TASK_CATEGORY_COMPILE, formats = [(22, 26)]\<rparr>]"
  by code_simp

theorem stdOutput_description_counterexample:
  "startsWith (rightTrimmed ''Error in command line'') ''Error in command line'' \<and>
   map description (addedTasks (emitted (stdOutput id ''Error in command line''
      (stdError id ''  x'' IarParser_init)))) =
     [''Error in command line'' @ CHR 0x0A # ''  x''] \<and>
   map description (addedTasks (emitted (stdOutput id ''Error in command line''
      (stdError id ''  x'' IarParser_init)))) \<noteq> [trimmed ''Error in command line'']"
  by (simp add: snippet_then_command_line_error startsWith_def rightTrimmed_def trimmed_def
        isSpace_def)

subsection \<open>The branches of stdError\<close>

lemma stdError_full_eq:
  assumes "match splitPathPattern (rightTrimmed ln) = None"
    and "match noFilePattern (rightTrimmed ln) = None"
    and "match fullPattern (rightTrimmed ln) = Some m"
  shows "stdError f ln p =
     (let p1 = newTask f (newTaskValue (taskType (captured m 3)) [] (f (captured m 1))
                 (toInt (captured m 2)) TASK_CATEGORY_COMPILE)
                 (p\<lparr>emitted := emitted p @ [BaseStdError ln]\<rparr>)
      in p1\<lparr>m_descriptionParts := m_descriptionParts p1 @ [''['' @ captured m 4 @ '']: ''],
             m_expectDescription := True, m_expectSnippet := False,
             m_expectFilePath := False\<rparr>)"
  using assms by (simp add: stdError_def Let_def)

lemma stdError_splitPath_eq:
  assumes "match splitPathPattern (rightTrimmed ln) = Some m"
  shows "stdError f ln p =
     (let p1 = newTask f (newTaskValue (taskType (captured m 1))
                 (''['' @ captured m 2 @ '']: '' @ captured m 3) [] (- 1)
                 TASK_CATEGORY_COMPILE)
                 (p\<lparr>emitted := emitted p @ [BaseStdError ln]\<rparr>)
      in p1\<lparr>m_filePathParts :=
               m_filePathParts p1 @ [remove (captured m 4) ''referenced from ''],
             m_expectFilePath := True, m_expectSnippet := False\<rparr>)"
  using assms by (simp add: stdError_def Let_def)

lemma stdError_continuation_eq:
  assumes "noPatternMatches (rightTrimmed ln)"
  shows "stdError f ln p =
     continuation f (rightTrimmed ln) (p\<lparr>emitted := emitted p @ [BaseStdError ln]\<rparr>)"
  using assms by (simp add: stdError_def Let_def noPatternMatches_def)

lemma descriptionPhase_step:
  assumes "descriptionPhaseLine l"
    and "m_expectDescription p" and "\<not> m_expectFilePath p" and "\<not> m_expectSnippet p"
  shows "stdError f l p =
     p\<lparr>m_descriptionParts :=
         m_descriptionParts p @ map trimmed (filter (\<lambda>l. indented (rightTrimmed l)) [l]),
       emitted := emitted p @ [BaseStdError l]\<rparr>"
proof -
  from assms(1) have n: "noPatternMatches (rightTrimmed l)" and e: "rightTrimmed l \<noteq> []"
    and s: "indented (rightTrimmed l) \<Longrightarrow> \<not> startsWith (rightTrimmed l) ''            ''"
    by (auto simp: descriptionPhaseLine_def Let_def split: if_splits)
  show ?thesis
    using assms(2-4) e s
    by (cases "indented (rightTrimmed l)")
      (simp_all add: stdError_continuation_eq [OF n] continuation_def indented_def
        trimmed_rightTrimmed)
qed

lemma descriptionPhase_run:
  assumes "\<forall>l \<in> set ls. descriptionPhaseLine l"
    and "m_expectDescription p" and "\<not> m_expectFilePath p" and "\<not> m_expectSnippet p"
  shows "run f (map StdErr ls) p =
     p\<lparr>m_descriptionParts :=
         m_descriptionParts p @ map trimmed (filter (\<lambda>l. indented (rightTrimmed l)) ls),
       emitted := emitted p @ map BaseStdError ls\<rparr>"
  using assms
proof (induction ls arbitrary: p)
  case Nil
  then show ?case by simp
next
  case (Cons l ls)
  let ?p = "stdError f l p"
  have st: "?p = p\<lparr>m_descriptionParts :=
         m_descriptionParts p @ map trimmed (filter (\<lambda>l. indented (rightTrimmed l)) [l]),
       emitted := emitted p @ [BaseStdError l]\<rparr>"
    using Cons.prems by (intro descriptionPhase_step) simp_all
  have "run f (map StdErr ls) ?p =
     ?p\<lparr>m_descriptionParts :=
         m_descriptionParts ?p @ map trimmed (filter (\<lambda>l. indented (rightTrimmed l)) ls),
       emitted := emitted ?p @ map BaseStdError ls\<rparr>"
    using Cons.prems by (intro Cons.IH) (simp_all add: st)
  then show ?case
    by (simp add: st)
qed

lemma pathPhase_step:
  assumes "pathPhaseLine l" and "m_expectFilePath p"
  shows "stdError f l p =
     p\<lparr>m_filePathParts :=
         m_filePathParts p @ filter indented [rightTrimmed l],
       emitted := emitted p @ [BaseStdError l]\<rparr>"
proof -
  from assms(1) have n: "noPatternMatches (rightTrimmed l)" and e: "rightTrimmed l \<noteq> []"
    and s: "indented (rightTrimmed l) \<Longrightarrow> \<not> endsWith (rightTrimmed l) '']''"
    by (auto simp: pathPhaseLine_def Let_def split: if_splits)
  show ?thesis
    using assms(2) e s
    by (cases "indented (rightTrimmed l)")
      (simp_all add: stdError_continuation_eq [OF n] continuation_def indented_def)
qed

lemma pathPhase_run:
  assumes "\<forall>l \<in> set ls. pathPhaseLine l" and "m_expectFilePath p"
  shows "run f (map StdErr ls) p =
     p\<lparr>m_filePathParts :=
         m_filePathParts p @ filter indented (map rightTrimmed ls),
       emitted := emitted p @ map BaseStdError ls\<rparr>"
  using assms
proof (induction ls arbitrary: p)
  case Nil
  then show ?case by simp
next
  case (Cons l ls)
  let ?p = "stdError f l p"
  have st: "?p = p\<lparr>m_filePathParts := m_filePathParts p @ filter indented [rightTrimmed l],
       emitted := emitted p @ [BaseStdError l]\<rparr>"
    using Cons.prems by (intro pathPhase_step) simp_all
  have "run f (map StdErr ls) ?p =
     ?p\<lparr>m_filePathParts := m_filePathParts ?p @ filter indented (map rightTrimmed ls),
       emitted := emitted ?p @ map BaseStdError ls\<rparr>"
    using Cons.prems by (intro Cons.IH) (simp_all add: st)
  then show ?case
    by (simp add: st)
qed

lemma pathEnd_step:
  assumes "pathEndLine l" and "m_expectFilePath p"
  shows "stdError f l p =
     doFlush f (p\<lparr>emitted := emitted p @ [BaseStdError l],
                 m_filePathParts := m_filePathParts p @ [butlast (rightTrimmed l)]\<rparr>)"
proof -
  from assms(1) have n: "noPatternMatches (rightTrimmed l)"
    and s: "indented (rightTrimmed l)" and e: "endsWith (rightTrimmed l) '']''"
    by (auto simp: pathEndLine_def Let_def)
  from s have ne: "rightTrimmed l \<noteq> []"
    by (auto simp: indented_def startsWith_def)
  then have "left (rightTrimmed l) (int (length (rightTrimmed l)) - 1) = butlast (rightTrimmed l)"
    by (cases "rightTrimmed l" rule: rev_cases) (simp_all add: left_def)
  then show ?thesis
    using assms(2) s e ne
    by (simp add: stdError_continuation_eq [OF n] continuation_def indented_def)
qed

subsection \<open>Diagnostics with file and line\<close>

text \<open>
  C1 (amended).  For every stderr line whose right-trimmed text matches the pattern of a
  full diagnostic, \<open>"<file>",<lineno> <Type>[<code>]...\<close> with \<open><Type>\<close> one of Warning,
  Error and Fatal error, and matches neither of the two patterns tried before it,
  \<open>stdError\<close> flushes the pending task, if any, and starts a new pending task: its file
  is the captured path, its line number the captured digits read by \<open>toInt\<close>, its type
  the classification of \<open><Type>\<close>.  At the flush its description begins with
  \<open>[<code>]: \<close> followed by the trimmed indented lines that came meanwhile; the
  snippet lines that were collected while no task was pending come after them.
\<close>

theorem stdError_full_diagnostic:
  assumes "p = run f ins IarParser_init"
    and "match splitPathPattern (rightTrimmed ln) = None"
    and "match noFilePattern (rightTrimmed ln) = None"
    and "match fullPattern (rightTrimmed ln) = Some m"
    and "\<forall>l \<in> set ls. descriptionPhaseLine l"
    and "q = run f (map StdErr ls) (stdError f ln p)"
  shows "emitted (stdError f ln p) =
           emitted p @ [BaseStdError ln] @
           (if isNull (m_lastTask p) then []
            else [AddTask (flushedTask f p) (m_lines p + int (length (m_snippets p))) 1]) \<and>
         m_lastTask (stdError f ln p) =
           newTaskValue (taskType (captured m 3)) [] (f (captured m 1))
             (toInt (captured m 2)) TASK_CATEGORY_COMPILE \<and>
         emitted (doFlush f q) =
           emitted q @ [AddTask (flushedTask f q) (1 + int (length (pendingSnippets p))) 1] \<and>
         description (flushedTask f q) =
           ''['' @ captured m 4 @ '']: '' @
           concat (map trimmed (filter (\<lambda>l. indented (rightTrimmed l)) ls)) @
           snippetText (pendingSnippets p) \<and>
         file' (flushedTask f q) = f (captured m 1) \<and>
         line (flushedTask f q) = toInt (captured m 2) \<and>
         type (flushedTask f q) = taskType (captured m 3)"
proof -
  let ?p = "p\<lparr>emitted := emitted p @ [BaseStdError ln]\<rparr>"
  let ?T = "newTaskValue (taskType (captured m 3)) [] (f (captured m 1))
              (toInt (captured m 2)) TASK_CATEGORY_COMPILE"
  let ?s = "stdError f ln p"
  have "IarParser_inv p"
    unfolding assms(1) by (rule run_inv [OF init_inv])
  then have i: "IarParser_inv ?p" by (simp add: inv_emitted)
  note n = newTask_fields [OF i]
  note s = stdError_full_eq [OF assms(2-4), of f p]
  have s1: "emitted ?s = emitted (doFlush f ?p)" and s2: "m_lastTask ?s = ?T"
    and s3: "m_descriptionParts ?s = [''['' @ captured m 4 @ '']: '']"
    and s4: "m_snippets ?s = pendingSnippets p" and s5: "m_filePathParts ?s = []"
    and s6: "m_lines ?s = 1"
    and s7: "m_expectDescription ?s \<and> \<not> m_expectFilePath ?s \<and> \<not> m_expectSnippet ?s"
    by (simp_all add: s Let_def n pendingSnippets_def)
  have q: "q = ?s\<lparr>m_descriptionParts :=
         m_descriptionParts ?s @ map trimmed (filter (\<lambda>l. indented (rightTrimmed l)) ls),
       emitted := emitted ?s @ map BaseStdError ls\<rparr>"
    unfolding assms(6) using assms(5) s7 by (intro descriptionPhase_run) simp_all
  have q1: "m_lastTask q = ?T" and q3: "m_descriptionParts q =
      (''['' @ captured m 4 @ '']: '') # map trimmed (filter (\<lambda>l. indented (rightTrimmed l)) ls)"
    and q4: "m_snippets q = pendingSnippets p" and q5: "m_filePathParts q = []"
    and q6: "m_lines q = 1"
    by (simp_all add: q s2 s3 s4 s5 s6)
  have a: "emitted ?s = emitted p @ [BaseStdError ln] @
           (if isNull (m_lastTask p) then []
            else [AddTask (flushedTask f p) (m_lines p + int (length (m_snippets p))) 1])"
    by (simp add: s1 doFlush_emitted flushedTask_emitted)
  have b: "emitted (doFlush f q) =
           emitted q @ [AddTask (flushedTask f q) (1 + int (length (pendingSnippets p))) 1]"
    by (simp add: doFlush_emitted q1 q4 q6 newTaskValue_fields)
  have c: "description (flushedTask f q) =
           ''['' @ captured m 4 @ '']: '' @
           concat (map trimmed (filter (\<lambda>l. indented (rightTrimmed l)) ls)) @
           snippetText (pendingSnippets p)"
    by (simp add: flushedTask_fields q1 q3 q4 newTaskValue_fields)
  have d: "file' (flushedTask f q) = f (captured m 1) \<and>
         line (flushedTask f q) = toInt (captured m 2) \<and>
         type (flushedTask f q) = taskType (captured m 3)"
    by (simp add: flushedTask_fields q1 q5 newTaskValue_fields)
  show ?thesis
    using a s2 b c d by blast
qed

lemma fullLine_matches:
  "match splitPathPattern (rightTrimmed fullLine) = None"
  "match noFilePattern (rightTrimmed fullLine) = None"
  "match fullPattern (rightTrimmed fullLine) =
     Some [(4, ''w''), (3, ''Warning''), (2, ''5''), (1, ''a'')]"
  by code_simp+

lemma description_lines:
  "descriptionPhaseLine ''  some''"
  "descriptionPhaseLine ''note''"
  "descriptionPhaseLine '' text''"
  by code_simp+

theorem stdError_full_diagnostic_witness:
  "match fullPattern (rightTrimmed fullLine) =
     Some [(4, ''w''), (3, ''Warning''), (2, ''5''), (1, ''a'')] \<and>
   descriptionPhaseLine ''  some'' \<and> descriptionPhaseLine ''note'' \<and>
   descriptionPhaseLine '' text'' \<and>
   emitted (stdError id fullLine IarParser_init) = [BaseStdError fullLine] \<and>
   m_lastTask (stdError id fullLine IarParser_init) =
     newTaskValue Warning [] ''a'' 5 TASK_CATEGORY_COMPILE \<and>
   description (flushedTask id
     (run id (map StdErr [''  some'', ''note'', '' text''])
        (stdError id fullLine IarParser_init))) = ''[w]: sometext''"
proof -
  have r: "IarParser_init = run id [] IarParser_init" by simp
  have l: "\<forall>l \<in> set [''  some'', ''note'', '' text'']. descriptionPhaseLine l"
    by (simp add: description_lines)
  have c: "captured [(4, ''w''), (3, ''Warning''), (2, ''5''), (1, ''a'')] 4 = ''w''"
    "captured [(4, ''w''), (3, ''Warning''), (2, ''5''), (1, ''a'')] 3 = ''Warning''"
    "toInt (captured [(4, ''w''), (3, ''Warning''), (2, ''5''), (1, ''a'')] 2) = 5"
    "captured [(4, ''w''), (3, ''Warning''), (2, ''5''), (1, ''a'')] 1 = ''a''"
    "taskType ''Warning'' = Warning"
    by code_simp+
  have t: "concat (map trimmed (filter (\<lambda>l. indented (rightTrimmed l))
      [''  some'', ''note'', '' text''])) = ''sometext''"
    by code_simp
  have i: "isNull (m_lastTask IarParser_init) \<and> pendingSnippets IarParser_init = [] \<and>
      emitted IarParser_init = []"
    by (simp add: IarParser_init_def nullTask_def pendingSnippets_def)
  show ?thesis
    using stdError_full_diagnostic [OF r fullLine_matches l refl]
    by (simp only: c t i fullLine_matches description_lines snippetText_def) simp
qed

lemma shadowedLine_matches:
  "match fullPattern (rightTrimmed shadowedLine) =
     Some [(4, ''e''), (3, ''Error''), (2, ''5''), (1, ''a'')]"
  by code_simp

lemma shadowedLine_task:
  "addedTasks (emitted (run id [StdErr shadowedLine, Flush] IarParser_init)) =
     [\<lparr>isNull = False, type = Error, description = ''[e]: d'', file' = [], line = - 1,
       category = TASK_CATEGORY_COMPILE, formats = []\<rparr>]"
  by code_simp

theorem stdError_full_diagnostic_counterexample:
  "match fullPattern (rightTrimmed shadowedLine) =
     Some [(4, ''e''), (3, ''Error''), (2, ''5''), (1, ''a'')] \<and>
   map file' (addedTasks (emitted (run id [StdErr shadowedLine, Flush] IarParser_init))) =
     [[]] \<and>
   map file' (addedTasks (emitted (run id [StdErr shadowedLine, Flush] IarParser_init))) \<noteq>
     [''a''] \<and>
   map line (addedTasks (emitted (run id [StdErr shadowedLine, Flush] IarParser_init))) =
     [- 1] \<and>
   map line (addedTasks (emitted (run id [StdErr shadowedLine, Flush] IarParser_init))) \<noteq>
     [5]"
  by (simp only: shadowedLine_matches shadowedLine_task) simp

subsection \<open>Diagnostics with a split file path\<close>

text \<open>
  C4 (amended).  For a stderr line whose right-trimmed text matches
  \<open>^(Error|Fatal error)[<code>]: <descr> [<path-begin>\<close> the parser starts to collect a
  file path.  The captured beginning without "referenced from ", the indented lines
  that follow and the indented line ending in \<open>]\<close>, without that \<open>]\<close>, each part
  trimmed, make the file path of the task that the line ending in \<open>]\<close> flushes.  The
  line number of the task is -1.  Its description begins with \<open>[<code>]: <descr>\<close>;
  the snippet lines that were collected while no task was pending come after it, so that
  it is \<open>[<code>]: <descr>\<close> when there are none.
\<close>

theorem stdError_split_path_diagnostic:
  assumes "p = run f ins IarParser_init"
    and "match splitPathPattern (rightTrimmed ln) = Some m"
    and "\<forall>l \<in> set ls. pathPhaseLine l"
    and "pathEndLine e"
    and "q = run f (map StdErr (ls @ [e])) (stdError f ln p)"
  shows "(\<exists>t. emitted q =
                emitted (stdError f ln p) @ map BaseStdError (ls @ [e]) @
                [AddTask t (1 + int (length (pendingSnippets p))) 1] \<and>
              file' t =
                f (concat (map trimmed
                     (remove (captured m 4) ''referenced from '' #
                      filter indented (map rightTrimmed ls) @
                      [butlast (rightTrimmed e)]))) \<and>
              description t =
                ''['' @ captured m 2 @ '']: '' @ captured m 3 @
                snippetText (pendingSnippets p) \<and>
              line t = - 1 \<and>
              type t = taskType (captured m 1)) \<and>
         isNull (m_lastTask q)"
proof -
  let ?p = "p\<lparr>emitted := emitted p @ [BaseStdError ln]\<rparr>"
  let ?T = "newTaskValue (taskType (captured m 1))
              (''['' @ captured m 2 @ '']: '' @ captured m 3) [] (- 1) TASK_CATEGORY_COMPILE"
  let ?s = "stdError f ln p"
  have "IarParser_inv p"
    unfolding assms(1) by (rule run_inv [OF init_inv])
  then have i: "IarParser_inv ?p" by (simp add: inv_emitted)
  note n = newTask_fields [OF i]
  note s = stdError_splitPath_eq [OF assms(2), of f p]
  have s2: "m_lastTask ?s = ?T"
    and s3: "m_descriptionParts ?s = []"
    and s4: "m_snippets ?s = pendingSnippets p"
    and s5: "m_filePathParts ?s = [remove (captured m 4) ''referenced from '']"
    and s6: "m_lines ?s = 1"
    and s7: "m_expectFilePath ?s"
    by (simp_all add: s Let_def n pendingSnippets_def)
  let ?r = "run f (map StdErr ls) ?s"
  have r: "?r = ?s\<lparr>m_filePathParts :=
         m_filePathParts ?s @ filter indented (map rightTrimmed ls),
       emitted := emitted ?s @ map BaseStdError ls\<rparr>"
    using assms(3) s7 by (intro pathPhase_run) simp_all
  let ?u = "?r\<lparr>emitted := emitted ?r @ [BaseStdError e],
               m_filePathParts := m_filePathParts ?r @ [butlast (rightTrimmed e)]\<rparr>"
  have "m_expectFilePath ?r" by (simp add: r s7)
  then have "stdError f e ?r = doFlush f ?u"
    using assms(4) by (intro pathEnd_step) simp_all
  then have q: "q = doFlush f ?u"
    unfolding assms(5) by (simp add: run_append)
  have u1: "m_lastTask ?u = ?T" and u3: "m_descriptionParts ?u = []"
    and u4: "m_snippets ?u = pendingSnippets p"
    and u5: "m_filePathParts ?u = remove (captured m 4) ''referenced from '' #
               filter indented (map rightTrimmed ls) @ [butlast (rightTrimmed e)]"
    and u6: "m_lines ?u = 1"
    and u7: "emitted ?u = emitted ?s @ map BaseStdError (ls @ [e])"
    by (simp_all add: r s2 s3 s4 s5 s6)
  have nn: "\<not> isNull (m_lastTask ?u)"
    by (simp only: u1 newTaskValue_fields) simp
  have a: "emitted q = emitted ?s @ map BaseStdError (ls @ [e]) @
      [AddTask (flushedTask f ?u) (1 + int (length (pendingSnippets p))) 1]"
    unfolding q by (simp only: doFlush_emitted u7 u4 u6 nn if_False append_assoc)
  have b: "file' (flushedTask f ?u) =
      f (concat (map trimmed
           (remove (captured m 4) ''referenced from '' #
            filter indented (map rightTrimmed ls) @ [butlast (rightTrimmed e)])))"
    by (simp only: flushedTask_fields u5) simp
  have c: "description (flushedTask f ?u) =
      ''['' @ captured m 2 @ '']: '' @ captured m 3 @ snippetText (pendingSnippets p)"
    by (simp only: flushedTask_fields u1 u3 u4 newTaskValue_fields) simp
  have d: "line (flushedTask f ?u) = - 1 \<and> type (flushedTask f ?u) = taskType (captured m 1)"
    by (simp only: flushedTask_fields u1 newTaskValue_fields)
  have z: "isNull (m_lastTask q)"
    unfolding q by (simp add: doFlush_pending [OF nn] nullTask_def)
  show ?thesis
    using a b c d z by blast
qed

lemma splitLine_matches:
  "match splitPathPattern (rightTrimmed splitLine) =
     Some [(4, ''referenced from c:''), (3, ''d''), (2, ''e''), (1, ''Error'')]"
  by code_simp

lemma path_lines: "pathPhaseLine '' fo''" "pathEndLine '' o]''"
  by code_simp+

theorem stdError_split_path_diagnostic_witness:
  "match splitPathPattern (rightTrimmed splitLine) =
     Some [(4, ''referenced from c:''), (3, ''d''), (2, ''e''), (1, ''Error'')] \<and>
   pathPhaseLine '' fo'' \<and> pathEndLine '' o]'' \<and>
   (\<exists>t. last (emitted (run id (map StdErr (['' fo''] @ ['' o]''])) 
                   (stdError id splitLine IarParser_init))) = AddTask t 1 1 \<and>
        file' t = ''c:foo'' \<and> description t = ''[e]: d'' \<and> line t = - 1 \<and>
        type t = Error)"
proof -
  have r: "IarParser_init = run id [] IarParser_init" by simp
  have l: "\<forall>l \<in> set ['' fo'']. pathPhaseLine l"
    by (simp add: path_lines)
  have c: "concat (map trimmed
         (remove (captured [(4, ''referenced from c:''), (3, ''d''), (2, ''e''),
            (1, ''Error'')] 4) ''referenced from '' #
          filter indented (map rightTrimmed ['' fo'']) @ [butlast (rightTrimmed '' o]'')])) =
       ''c:foo''"
    "captured [(4, ''referenced from c:''), (3, ''d''), (2, ''e''), (1, ''Error'')] 2 = ''e''"
    "captured [(4, ''referenced from c:''), (3, ''d''), (2, ''e''), (1, ''Error'')] 3 = ''d''"
    "taskType (captured [(4, ''referenced from c:''), (3, ''d''), (2, ''e''),
            (1, ''Error'')] 1) = Error"
    by code_simp+
  have i: "pendingSnippets IarParser_init = []"
    by (simp add: IarParser_init_def nullTask_def pendingSnippets_def)
  obtain t where t: "emitted (run id (map StdErr (['' fo''] @ ['' o]''])) 
                   (stdError id splitLine IarParser_init)) =
                emitted (stdError id splitLine IarParser_init) @
                map BaseStdError (['' fo''] @ ['' o]'']) @
                [AddTask t (1 + int (length (pendingSnippets IarParser_init))) 1]"
     "file' t = id ''c:foo''"
     "description t = ''['' @ ''e'' @ '']: '' @ ''d'' @
        snippetText (pendingSnippets IarParser_init)"
     "line t = - 1" "type t = Error"
    using stdError_split_path_diagnostic [OF r splitLine_matches l path_lines(2) refl]
    unfolding c by blast
  have "last (emitted (run id (map StdErr (['' fo''] @ ['' o]''])) 
                   (stdError id splitLine IarParser_init))) = AddTask t 1 1"
    unfolding t(1) by (simp add: i)
  then show ?thesis
    using t(2-5) splitLine_matches path_lines by (auto simp: i snippetText_def)
qed

lemma snippetFirst_match:
  "match splitPathPattern (rightTrimmed ''Error[e]: d [p'') =
     Some [(4, ''p''), (3, ''d''), (2, ''e''), (1, ''Error'')]"
  by code_simp

lemma snippetFirst_tasks:
  "map description (addedTasks (emitted (run id snippetFirst IarParser_init))) =
     [''[e]: d'' @ CHR 0x0A # ''  x'']"
  by code_simp

theorem stdError_split_path_description_counterexample:
  "match splitPathPattern (rightTrimmed ''Error[e]: d [p'') =
     Some [(4, ''p''), (3, ''d''), (2, ''e''), (1, ''Error'')] \<and>
   pathEndLine '' o]'' \<and>
   snippetFirst = [StdErr ''  x'', StdErr ''Error[e]: d [p'', StdErr '' o]''] \<and>
   map description (addedTasks (emitted (run id snippetFirst IarParser_init))) =
     [''[e]: d'' @ CHR 0x0A # ''  x''] \<and>
   map description (addedTasks (emitted (run id snippetFirst IarParser_init))) \<noteq>
     [''[e]: d'']"
  by (simp only: snippetFirst_match snippetFirst_tasks path_lines)
    (simp add: snippetFirst_def)

subsection \<open>The unit tests "Details warning", "No definition for" and "More than one source file specified"\<close>

lemma test_details_warning:
  "map taskSummary (addedTasks (emitted (run id testDetailsWarning IarParser_init))) =
     [(Warning,
       ''[Pe223]: Some warning'' @ CHR 0x0A # ''      some_detail;'' @ CHR 0x0A # ''      ^'',
       mainC, 63, TASK_CATEGORY_COMPILE)]"
  by code_simp

lemma test_no_definition_for:
  "map taskSummary (addedTasks (emitted (run id testNoDefinitionFor IarParser_init))) =
     [(Error, ''[Li005]: Some error '' @ CHR 0x22 # ''foo'' @ [CHR 0x22],
       ''c:'' @ CHR 0x5C # ''foo'' @ CHR 0x5C # ''bar'' @ CHR 0x5C # ''main.c.o'', - 1,
       TASK_CATEGORY_COMPILE)]"
  by code_simp

lemma test_more_than_one_source_file:
  "map taskSummary
     (addedTasks (emitted (run id testMoreThanOneSourceFile IarParser_init))) =
     [(Error,
       ''[Su011]: Some error:'' @ CHR 0x0A # ''                      c:'' @ CHR 0x5C #
       ''foo.c'' @ CHR 0x0A # ''            c:'' @ CHR 0x5C # ''bar.c'',
       [], - 1, TASK_CATEGORY_COMPILE)]"
  by code_simp

section \<open>Properties of the severity classification\<close>

text \<open>
  C2.  For every message-type string, \<open>taskType\<close> returns \<open>Warning\<close> exactly when the
  string is "Warning", \<open>Error\<close> exactly when it is "Error" or "Fatal error", and
  \<open>Unknown\<close> for every other string.
\<close>

theorem taskType_classification:
  "(taskType s = Warning \<longleftrightarrow> s = ''Warning'') \<and>
   (taskType s = Error \<longleftrightarrow> s = ''Error'' \<or> s = ''Fatal error'') \<and>
   (taskType s = Unknown \<longleftrightarrow> s \<noteq> ''Warning'' \<and> s \<noteq> ''Error'' \<and> s \<noteq> ''Fatal error'')"
  by (simp add: taskType_def)

theorem taskType_classification_witness:
  "taskType ''Warning'' = Warning \<and> taskType ''Fatal error'' = Error \<and>
   taskType ''Remark'' = Unknown"
  using taskType_classification [of "''Warning''"]
    taskType_classification [of "''Fatal error''"]
    taskType_classification [of "''Remark''"]
  by simp

section \<open>Properties of the quick fix\<close>

subsection \<open>The id property\<close>

lemma idOfMembers_find:
  "idOfMembers ms =
     (case List.find (\<lambda>m. idBinding m \<noteq> None) ms of
        None \<Rightarrow> [] | Some m \<Rightarrow> the (idBinding m))"
proof (induction ms)
  case Nil
  show ?case by simp
next
  case (Cons m ms)
  show ?case
  proof (cases "idBinding m")
    case None
    then have "idOfMembers (m # ms) = idOfMembers ms"
      by (auto elim!: idBinding.elims split: UiObjectMember.splits option.splits
            Statement.splits ExpressionNode.splits UiQualifiedId.splits)
    with None Cons show ?thesis by simp
  next
    case (Some v)
    then have "idOfMembers (m # ms) = v"
      by (auto elim!: idBinding.elims split: if_splits)
    with Some show ?thesis by simp
  qed
qed

text \<open>
  C9.  For every object definition, a null pointer and a null initializer included,
  \<open>getIdProperty\<close> returns the value of the first member that is a script binding of
  the single name \<open>id\<close> to an identifier or a string literal, and the empty string when
  there is no such member; every other member is passed over.
\<close>

theorem getIdProperty_first_id_binding:
  "getIdProperty d = firstIdBinding d \<and>
   getIdProperty None = [] \<and>
   getIdProperty (Some (UiObjectDefinition None)) = []"
  by (simp add: getIdProperty_def firstIdBinding_def membersOf_def idOfMembers_find
        split: option.splits)

theorem getIdProperty_first_id_binding_witness:
  "getIdProperty (Some innerObject) = ''button'' \<and>
   firstIdBinding (Some innerObject) = ''button''"
  using getIdProperty_first_id_binding [of "Some innerObject"]
  by (simp add: firstIdBinding_def membersOf_def innerObject_def)

subsection \<open>The matcher\<close>

lemma matchLoop_result:
  "n \<le> length path \<Longrightarrow>
   (if \<exists>j<n. qualifies path j
    then \<exists>i d. i < n \<and> qualifies path i \<and> (\<forall>j<n. qualifies path j \<longrightarrow> j \<le> i) \<and>
           path ! i = UiObjectDefinitionNode d \<and>
           matchLoop path n = [newOperation (Some d)]
    else matchLoop path n = [])"
proof (induction n)
  case 0
  show ?case by simp
next
  case (Suc n)
  then have len: "n < length path" and IH: "if \<exists>j<n. qualifies path j
    then \<exists>i d. i < n \<and> qualifies path i \<and> (\<forall>j<n. qualifies path j \<longrightarrow> j \<le> i) \<and>
           path ! i = UiObjectDefinitionNode d \<and>
           matchLoop path n = [newOperation (Some d)]
    else matchLoop path n = []"
    by simp_all
  show ?case
  proof (cases "qualifies path n")
    case True
    then obtain d where d: "path ! n = UiObjectDefinitionNode d"
      by (auto simp: qualifies_def split: Node.splits)
    with True have "matchLoop path (Suc n) = [newOperation (Some d)]"
      by (simp add: qualifies_def)
    with True d have "n < Suc n \<and> qualifies path n \<and>
        (\<forall>j<Suc n. qualifies path j \<longrightarrow> j \<le> n) \<and>
        path ! n = UiObjectDefinitionNode d \<and>
        matchLoop path (Suc n) = [newOperation (Some d)]"
      by simp
    then show ?thesis using True by (auto simp del: matchLoop.simps)
  next
    case False
    with len have step: "matchLoop path (Suc n) = matchLoop path n"
      by (auto simp: qualifies_def split: Node.splits)
    have ex: "(\<exists>j<Suc n. qualifies path j) = (\<exists>j<n. qualifies path j)"
      using False less_Suc_eq by auto
    show ?thesis
    proof (cases "\<exists>j<n. qualifies path j")
      case True
      with IH obtain i d where "i < n" "qualifies path i"
        "\<forall>j<n. qualifies path j \<longrightarrow> j \<le> i" "path ! i = UiObjectDefinitionNode d"
        "matchLoop path n = [newOperation (Some d)]"
        by auto
      with False have "i < Suc n \<and> qualifies path i \<and>
          (\<forall>j<Suc n. qualifies path j \<longrightarrow> j \<le> i) \<and>
          path ! i = UiObjectDefinitionNode d \<and>
          matchLoop path (Suc n) = [newOperation (Some d)]"
        unfolding step using less_Suc_eq by auto
      then show ?thesis unfolding ex using True by (auto simp del: matchLoop.simps)
    next
      case False
      with IH show ?thesis unfolding ex step by simp
    qed
  qed
qed

text \<open>
  C3.  \<open>ComponentFromObjectDef::match\<close> returns exactly one operation, described as
  "Extract Component", when the path at the cursor holds an object definition that is
  not the root object and has a non-empty id; the operation is built from the innermost
  such node.  It returns the empty list when the path holds no such node.
\<close>

theorem match_innermost_object_definition:
  assumes "path = astPath state (position state)"
  shows "if \<exists>j. qualifies path j
         then \<exists>i d. qualifies path i \<and> (\<forall>j. qualifies path j \<longrightarrow> j \<le> i) \<and>
                path ! i = UiObjectDefinitionNode d \<and>
                matchOperations state =
                  [\<lparr>opDescription = ''Extract Component'', priority = 0, objDef = Some d\<rparr>]
         else matchOperations state = []"
proof -
  have q: "qualifies path j \<Longrightarrow> j < length path" for j
    by (simp add: qualifies_def)
  then have e: "(\<exists>j<length path. qualifies path j) = (\<exists>j. qualifies path j)"
    by auto
  have m: "matchOperations state = matchLoop path (length path)"
    by (simp add: matchOperations_def Let_def assms)
  show ?thesis
  proof (cases "\<exists>j. qualifies path j")
    case True
    with matchLoop_result [of "length path" path] e
    obtain i d where "qualifies path i" "\<forall>j<length path. qualifies path j \<longrightarrow> j \<le> i"
      "path ! i = UiObjectDefinitionNode d"
      "matchLoop path (length path) = [newOperation (Some d)]"
      by auto
    with q have "qualifies path i \<and> (\<forall>j. qualifies path j \<longrightarrow> j \<le> i) \<and>
        path ! i = UiObjectDefinitionNode d \<and>
        matchOperations state =
          [\<lparr>opDescription = ''Extract Component'', priority = 0, objDef = Some d\<rparr>]"
      by (auto simp: m newOperation_def)
    with True show ?thesis by auto
  next
    case False
    with matchLoop_result [of "length path" path] e show ?thesis
      by (simp add: m)
  qed
qed

theorem match_innermost_object_definition_witness:
  "qualifies examplePath 3 \<and>
   matchOperations exampleState =
     [\<lparr>opDescription = ''Extract Component'', priority = 0, objDef = Some innerObject\<rparr>] \<and>
   matchOperations rootOnlyState = []"
proof -
  have q: "qualifies examplePath 3"
    by (simp add: qualifies_def examplePath_def innerObject_def isUiProgram_def
          getIdProperty_def)
  have n: "qualifies examplePath j \<Longrightarrow> j \<le> 3" for j
  proof -
    assume a: "qualifies examplePath j"
    have "j \<le> 3 \<or> j = 4 \<or> 5 \<le> j" by arith
    with a show "j \<le> 3"
      by (auto simp: qualifies_def examplePath_def)
  qed
  have r: "\<not> qualifies [UiProgramNode, UiObjectDefinitionNode rootObject] j" for j
  proof -
    have "j = 0 \<or> j = 1 \<or> 2 \<le> j" by arith
    then show ?thesis
      by (auto simp: qualifies_def isUiProgram_def)
  qed
  have a: "examplePath = astPath exampleState (position exampleState)"
    by (simp add: exampleState_def)
  have b: "[UiProgramNode, UiObjectDefinitionNode rootObject] =
      astPath rootOnlyState (position rootOnlyState)"
    by (simp add: rootOnlyState_def)
  from q match_innermost_object_definition [OF a]
  obtain i d where i: "qualifies examplePath i" "\<forall>j. qualifies examplePath j \<longrightarrow> j \<le> i"
    "examplePath ! i = UiObjectDefinitionNode d"
    "matchOperations exampleState =
       [\<lparr>opDescription = ''Extract Component'', priority = 0, objDef = Some d\<rparr>]"
    by (auto split: if_splits)
  from i(1,2) q n have "i = 3" by (simp add: le_antisym)
  with i(3) have "d = innerObject" by (simp add: examplePath_def)
  with i(4) q r match_innermost_object_definition [OF b] show ?thesis
    by simp
qed

subsection \<open>The component name\<close>

lemma matchLoop_nonempty_id:
  "op \<in> set (matchLoop path n) \<Longrightarrow> objDef op \<noteq> None \<and> getIdProperty (objDef op) \<noteq> []"
  by (induction n) (auto simp: newOperation_def split: Node.splits if_splits)

text \<open>
  C10.  When \<open>createChanges\<close> runs on an operation that \<open>match\<close> produced, the id of its
  object definition is not empty, so that position 0 of the component name exists and
  its character is put in upper case.  On an object definition whose id is empty the
  same statement reads position 0 of an empty string.
\<close>

theorem createChanges_component_name_in_bounds:
  "(op \<in> set (matchOperations state) \<longrightarrow>
      getIdProperty (objDef op) \<noteq> [] \<and>
      componentName toUpper op =
        Inr (toUpper (hd (getIdProperty (objDef op))) # tl (getIdProperty (objDef op)))) \<and>
   (objDef op' \<noteq> None \<and> getIdProperty (objDef op') = [] \<longrightarrow>
      componentName toUpper op' = Inl IndexOutOfRange)"
  using matchLoop_nonempty_id [of op "astPath state (position state)"]
  by (auto simp: matchOperations_def Let_def componentName_def split: list.splits)

theorem createChanges_component_name_in_bounds_witness:
  "newOperation (Some innerObject) \<in> set (matchOperations exampleState) \<and>
   componentName asciiToUpper (newOperation (Some innerObject)) = Inr ''Button'' \<and>
   componentName asciiToUpper (newOperation (Some (UiObjectDefinition None))) =
     Inl IndexOutOfRange"
proof -
  have m: "newOperation (Some innerObject) \<in> set (matchOperations exampleState)"
    by (simp add: matchOperations_def exampleState_def examplePath_def innerObject_def
          isUiProgram_def getIdProperty_def numeral_eq_Suc)
  have g: "getIdProperty (objDef (newOperation (Some innerObject))) = ''button''"
    by (simp add: newOperation_def innerObject_def getIdProperty_def)
  have u: "asciiToUpper CHR ''b'' = CHR ''B''"
    by (simp add: asciiToUpper_def)
  have e: "objDef (newOperation (Some (UiObjectDefinition None))) \<noteq> None \<and>
      getIdProperty (objDef (newOperation (Some (UiObjectDefinition None)))) = []"
    by (simp add: newOperation_def getIdProperty_def)
  show ?thesis
    using m g u e
      createChanges_component_name_in_bounds [of "newOperation (Some innerObject)"
        exampleState asciiToUpper "newOperation (Some (UiObjectDefinition None))"]
    by simp
qed

end
